theory Spec2Isabelle
  imports Main "HOL-Library.Word"
begin

section \<open>Library functions used by the watcher\<close>

subsection \<open>strconv.Atoi\<close>

text \<open>
  \<^verbatim>\<open>strconv.Atoi(s)\<close> is \<^verbatim>\<open>ParseInt(s, 10, 0)\<close> with a fast path for short strings
  that returns the same values and the same kind of error. The model follows
  \<^verbatim>\<open>ParseInt\<close> and \<^verbatim>\<open>ParseUint\<close> for base 10 and a 64-bit \<^verbatim>\<open>int\<close>: an optional
  sign, then at least one decimal digit, the digits read left to right with the
  overflow checks of \<^verbatim>\<open>ParseUint\<close>, then the range check of \<^verbatim>\<open>ParseInt\<close>. A Go string
  is a sequence of bytes, as an Isabelle \<open>string\<close> is.
\<close>

datatype NumError = ErrSyntax | ErrRange

definition isDigit :: "char \<Rightarrow> bool" where
  "isDigit c = (48 \<le> (of_char c :: nat) \<and> (of_char c :: nat) \<le> 57)"

definition digitVal :: "char \<Rightarrow> nat" where
  "digitVal c = of_char c - 48"

definition maxUint64 :: nat where
  "maxUint64 = 18446744073709551615"

text \<open>The loop of \<^verbatim>\<open>ParseUint\<close>: \<open>n\<close> is the value read so far.\<close>

fun parseDigits :: "nat \<Rightarrow> string \<Rightarrow> NumError + nat" where
  "parseDigits n [] = Inr n"
| "parseDigits n (c # cs) =
     (if \<not> isDigit c then Inl ErrSyntax
      else if n \<ge> maxUint64 div 10 + 1 then Inl ErrRange
      else if n * 10 + digitVal c > maxUint64 then Inl ErrRange
      else parseDigits (n * 10 + digitVal c) cs)"

definition ParseUint :: "string \<Rightarrow> NumError + nat" where
  "ParseUint s = (if s = [] then Inl ErrSyntax else parseDigits 0 s)"

definition ParseInt :: "string \<Rightarrow> NumError + int" where
  "ParseInt s =
     (case s of
        [] \<Rightarrow> Inl ErrSyntax
      | c # cs \<Rightarrow>
          (let neg = (c = CHR ''-'');
               body = (if c = CHR ''+'' \<or> c = CHR ''-'' then cs else s)
           in case ParseUint body of
                Inl ErrSyntax \<Rightarrow> Inl ErrSyntax
              | Inl ErrRange \<Rightarrow> Inl ErrRange
              | Inr un \<Rightarrow>
                  if \<not> neg \<and> un \<ge> 2 ^ 63 then Inl ErrRange
                  else if neg \<and> un > 2 ^ 63 then Inl ErrRange
                  else Inr (if neg then - int un else int un)))"

definition Atoi :: "string \<Rightarrow> NumError + int" where
  "Atoi s = ParseInt s"

subsection \<open>fmt.Sprintf with the verb \<^verbatim>\<open>%d\<close>\<close>

text \<open>The decimal digits of a magnitude, most significant first.\<close>

function formatBits :: "nat \<Rightarrow> string" where
  "formatBits n =
     (if n < 10 then [char_of (48 + n)]
      else formatBits (n div 10) @ [char_of (48 + n mod 10)])"
  by pat_completeness auto
termination
  by (relation "measure id") auto

declare formatBits.simps [simp del]

definition Sprintf_d :: "int \<Rightarrow> string" where
  "Sprintf_d i = (if i < 0 then CHR ''-'' # formatBits (nat (- i)) else formatBits (nat i))"

section \<open>Kubernetes objects and the store\<close>

text \<open>
  Go maps and the values behind pointers are shared, mutable objects. They live in a
  store of cells indexed by address; a map field or a pointer holds an address, and
  \<open>None\<close> is Go's \<^verbatim>\<open>nil\<close>. Strings and integers are values.
\<close>

type_synonym addr = nat

record ObjectReference =
  Kind :: string
  Namespace :: string
  Name :: string
  UID :: string
  APIVersion :: string
  ResourceVersion :: string
  FieldPath :: string

text \<open>
  The fields of \<^verbatim>\<open>corev1.Event\<close> that the watcher reads. \<^verbatim>\<open>event.Name\<close>,
  \<^verbatim>\<open>event.Namespace\<close> and \<^verbatim>\<open>event.Annotations\<close> are the promoted fields of the embedded
  \<^verbatim>\<open>ObjectMeta\<close>; the annotations are a map, so the field holds an address. \<open>Count\<close> is
  an \<^verbatim>\<open>int32\<close>.
\<close>

record Event =
  Event_Name :: string
  Event_Namespace :: string
  Event_Annotations :: "addr option"
  InvolvedObject :: ObjectReference
  Reason :: string
  Message :: string
  Count :: "32 word"

text \<open>
  \<^verbatim>\<open>EnhancedEvent\<close> is declared outside \<^verbatim>\<open>watcher.go\<close>; these are the fields that
  \<^verbatim>\<open>onEvent\<close> uses: the embedded event, and an involved object that carries the
  reference, the labels and the annotations.
\<close>

record EnhancedObjectReference =
  ObjectReference :: ObjectReference
  Labels :: "addr option"
  Annotations :: "addr option"

record EnhancedEvent =
  Event :: Event
  Enhanced_InvolvedObject :: EnhancedObjectReference

definition zeroObjectReference :: ObjectReference where
  "zeroObjectReference =
     \<lparr>Kind = [], Namespace = [], Name = [], UID = [], APIVersion = [],
      ResourceVersion = [], FieldPath = []\<rparr>"

definition zeroEnhancedObjectReference :: EnhancedObjectReference where
  "zeroEnhancedObjectReference =
     \<lparr>ObjectReference = zeroObjectReference, Labels = None, Annotations = None\<rparr>"

datatype cell =
    MapCell "string \<rightharpoonup> string"
  | EventCell Event
  | EnhancedEventCell EnhancedEvent

type_synonym store = "cell list"

definition load :: "store \<Rightarrow> addr \<Rightarrow> cell option" where
  "load h a = (if a < length h then Some (h ! a) else None)"

definition alloc :: "store \<Rightarrow> cell \<Rightarrow> addr \<times> store" where
  "alloc h c = (length h, h @ [c])"

text \<open>
  Reading a key of a map: a \<^verbatim>\<open>nil\<close> map has no keys. Go's types exclude a map field
  that holds the address of another kind of cell; the model reads it as a map without
  keys.
\<close>

definition mapIndex :: "store \<Rightarrow> addr option \<Rightarrow> string \<Rightarrow> string option" where
  "mapIndex h m k =
     (case m of
        None \<Rightarrow> None
      | Some a \<Rightarrow> (case load h a of Some (MapCell f) \<Rightarrow> f k | _ \<Rightarrow> None))"

text \<open>
  The generated \<^verbatim>\<open>DeepCopy\<close>: the struct is copied, a \<^verbatim>\<open>nil\<close> map stays \<^verbatim>\<open>nil\<close>, and any
  other map is copied key by key into a new map.
\<close>

definition copyMap :: "store \<Rightarrow> addr option \<Rightarrow> addr option \<times> store" where
  "copyMap h m =
     (case m of
        None \<Rightarrow> (None, h)
      | Some a \<Rightarrow>
          (case load h a of
             Some (MapCell f) \<Rightarrow> (let (b, h') = alloc h (MapCell f) in (Some b, h'))
           | _ \<Rightarrow> (None, h)))"

definition DeepCopy :: "store \<Rightarrow> Event \<Rightarrow> Event \<times> store" where
  "DeepCopy h event =
     (let (a, h1) = copyMap h (Event_Annotations event)
      in (event\<lparr>Event_Annotations := a\<rparr>, h1))"

section \<open>The metadata caches\<close>

text \<open>
  \<^verbatim>\<open>LabelCache\<close> and \<^verbatim>\<open>AnnotationCache\<close>, with their methods \<^verbatim>\<open>GetLabelsWithCache\<close> and
  \<^verbatim>\<open>GetAnnotationsWithCache\<close>, are declared outside \<^verbatim>\<open>watcher.go\<close>. Section 4.2 of the
  specification describes one kind of cache, used twice.
\<close>

text \<open>
  Modelled from the spec: the identity of an object, the key of a cache (missing: the
  key used by \<^verbatim>\<open>LabelCache\<close> and \<^verbatim>\<open>AnnotationCache\<close>). Section 3 gives kind, namespace and
  name, with or without the uid; the model takes all four.
\<close>

type_synonym ObjectKey = "string \<times> string \<times> string \<times> string"

definition objectKey :: "ObjectReference \<Rightarrow> ObjectKey" where
  "objectKey r = (Kind r, Namespace r, Name r, UID r)"

text \<open>
  Modelled from the spec: the state of a cache (missing: the types \<^verbatim>\<open>LabelCache\<close> and
  \<^verbatim>\<open>AnnotationCache\<close>). A cache memoizes one metadata mapping per object identity, and
  it fetches from an authoritative source, which answers with an error or with the
  mapping of the object (\<open>None\<close> for an object without one).
\<close>

record MetadataCache =
  entries :: "ObjectKey \<rightharpoonup> addr option"
  source :: "ObjectReference \<Rightarrow> string + (string \<rightharpoonup> string) option"

text \<open>
  Modelled from the spec: \<^verbatim>\<open>getWithCache\<close> (missing: the bodies of \<^verbatim>\<open>GetLabelsWithCache\<close>
  and \<^verbatim>\<open>GetAnnotationsWithCache\<close>). It returns the memoized mapping of the identity if
  there is one; otherwise it fetches from the source, returns the error of a failed
  fetch without memoizing it, and memoizes and returns the mapping of a fetch that
  succeeded. The result is the returned value, the cache and the store afterwards.
\<close>

definition getWithCache ::
  "MetadataCache \<Rightarrow> store \<Rightarrow> ObjectReference \<Rightarrow> (string + addr option) \<times> MetadataCache \<times> store"
where
  "getWithCache c h r =
     (case entries c (objectKey r) of
        Some m \<Rightarrow> (Inr m, c, h)
      | None \<Rightarrow>
          (case source c r of
             Inl err \<Rightarrow> (Inl err, c, h)
           | Inr None \<Rightarrow> (Inr None, c\<lparr>entries := (entries c)(objectKey r \<mapsto> None)\<rparr>, h)
           | Inr (Some f) \<Rightarrow>
               (let (b, h') = alloc h (MapCell f)
                in (Inr (Some b), c\<lparr>entries := (entries c)(objectKey r \<mapsto> Some b)\<rparr>, h'))))"

text \<open>
  Modelled from the spec: \<^verbatim>\<open>GetLabelsWithCache\<close> (missing: the method of \<^verbatim>\<open>LabelCache\<close>),
  the cache of section 4.2 over the labels.
\<close>

definition GetLabelsWithCache ::
  "MetadataCache \<Rightarrow> store \<Rightarrow> ObjectReference \<Rightarrow> (string + addr option) \<times> MetadataCache \<times> store"
where
  "GetLabelsWithCache = getWithCache"

text \<open>
  Modelled from the spec: \<^verbatim>\<open>GetAnnotationsWithCache\<close> (missing: the method of
  \<^verbatim>\<open>AnnotationCache\<close>), the cache of section 4.2 over the annotations.
\<close>

definition GetAnnotationsWithCache ::
  "MetadataCache \<Rightarrow> store \<Rightarrow> ObjectReference \<Rightarrow> (string + addr option) \<times> MetadataCache \<times> store"
where
  "GetAnnotationsWithCache = getWithCache"

text \<open>A fetch fails when the identity is not memoized and the source returns an error.\<close>

definition fetchFails :: "MetadataCache \<Rightarrow> ObjectReference \<Rightarrow> bool" where
  "fetchFails c r = (entries c (objectKey r) = None \<and> isl (source c r))"

section \<open>The event watcher\<close>

text \<open>
  What \<^verbatim>\<open>onEvent\<close> does to the outside is recorded in a trace, in order: the log
  lines, the calls of the two caches with what they returned, the call of the handler
  \<^verbatim>\<open>e.fn\<close> with the pointer it is given, and the patch request with its body and the
  error it returned.
\<close>

datatype effect =
    LogDebug "(string \<times> string) list" string
  | LogError string string
  | CallGetLabelsWithCache ObjectReference "string + addr option"
  | CallGetAnnotationsWithCache ObjectReference "string + addr option"
  | CallHandler addr
  | CallPatchWithEventNamespace string Event string "string option"

text \<open>
  The fields of \<^verbatim>\<open>EventWatcher\<close> that \<^verbatim>\<open>onEvent\<close> uses. \<open>clientset\<close> is the answer of the
  API server to a patch of an event: the namespace, the event and the body of the
  patch give an error or none. The handler \<^verbatim>\<open>fn\<close> is the \<open>CallHandler\<close> effect; the
  informer and the stopper channel belong to \<^verbatim>\<open>Start\<close> and \<^verbatim>\<open>Stop\<close>.
\<close>

record EventWatcher =
  labelCache :: MetadataCache
  annotationCache :: MetadataCache
  clientset :: "string \<Rightarrow> Event \<Rightarrow> string \<Rightarrow> string option"

record world = EventWatcher +
  heap :: store
  trace :: "effect list"

datatype panic = NilPointerDereference | TypeAssertionFailed | InvalidAddress

definition annotationKey :: string where
  "annotationKey = ''event-exporter.wandera.com/last-count''"

definition emit :: "world \<Rightarrow> effect \<Rightarrow> world" where
  "emit w x = w\<lparr>trace := trace w @ [x]\<rparr>"

text \<open>Lines 58 to 63: the debug line with the message, namespace, reason and object.\<close>

definition received :: "Event \<Rightarrow> effect" where
  "received event =
     LogDebug [(''msg'', Message event), (''namespace'', Event_Namespace event),
               (''reason'', Reason event), (''involvedObject'', Name (InvolvedObject event))]
       ''Received event''"

text \<open>Lines 65 to 70: the condition under which the event is skipped.\<close>

definition skipEvent :: "store \<Rightarrow> Event \<Rightarrow> bool" where
  "skipEvent h event =
     (case mapIndex h (Event_Annotations event) annotationKey of
        None \<Rightarrow> False
      | Some a \<Rightarrow>
          (case Atoi a of
             Inl err \<Rightarrow> False
           | Inr v \<Rightarrow> v \<ge> sint (Count event)))"

text \<open>Lines 72 to 74: the enhanced event is a new object that holds a deep copy.\<close>

definition newEnhancedEvent :: "world \<Rightarrow> Event \<Rightarrow> addr \<times> world" where
  "newEnhancedEvent w event =
     (let (copy, h1) = DeepCopy (heap w) event;
          (ev, h2) = alloc h1 (EnhancedEventCell
             \<lparr>Event = copy, Enhanced_InvolvedObject = zeroEnhancedObjectReference\<rparr>)
      in (ev, w\<lparr>heap := h2\<rparr>))"

text \<open>An assignment to a field of \<^verbatim>\<open>ev.InvolvedObject\<close>.\<close>

definition assignInvolvedObject ::
  "store \<Rightarrow> addr \<Rightarrow> (EnhancedObjectReference \<Rightarrow> EnhancedObjectReference) \<Rightarrow> store"
where
  "assignInvolvedObject h ev f =
     (case load h ev of
        Some (EnhancedEventCell e) \<Rightarrow>
          h[ev := EnhancedEventCell (e\<lparr>Enhanced_InvolvedObject := f (Enhanced_InvolvedObject e)\<rparr>)]
      | _ \<Rightarrow> h)"

text \<open>Lines 76 to 83.\<close>

definition enrichLabels :: "world \<Rightarrow> addr \<Rightarrow> Event \<Rightarrow> world" where
  "enrichLabels w ev event =
     (let (res, c, h) = GetLabelsWithCache (labelCache w) (heap w) (InvolvedObject event);
          w1 = emit (w\<lparr>labelCache := c, heap := h\<rparr>)
                 (CallGetLabelsWithCache (InvolvedObject event) res)
      in case res of
           Inl err \<Rightarrow> emit w1 (LogError err ''Cannot list labels of the object'')
         | Inr labels \<Rightarrow>
             w1\<lparr>heap := assignInvolvedObject (heap w1) ev
                   (\<lambda>io. io\<lparr>Labels := labels, ObjectReference := InvolvedObject event\<rparr>)\<rparr>)"

text \<open>Lines 85 to 91.\<close>

definition enrichAnnotations :: "world \<Rightarrow> addr \<Rightarrow> Event \<Rightarrow> world" where
  "enrichAnnotations w ev event =
     (let (res, c, h) =
            GetAnnotationsWithCache (annotationCache w) (heap w) (InvolvedObject event);
          w1 = emit (w\<lparr>annotationCache := c, heap := h\<rparr>)
                 (CallGetAnnotationsWithCache (InvolvedObject event) res)
      in case res of
           Inl err \<Rightarrow> emit w1 (LogError err ''Cannot list annotations of the object'')
         | Inr annotations \<Rightarrow>
             w1\<lparr>heap := assignInvolvedObject (heap w1) ev
                   (\<lambda>io. io\<lparr>Annotations := annotations,
                             ObjectReference := InvolvedObject event\<rparr>)\<rparr>)"

text \<open>
  Lines 102 to 113: the body of the patch is the template with the key and the count
  in decimal; the request goes to the namespace of the event.
\<close>

definition patchJson :: "string \<Rightarrow> 32 word \<Rightarrow> string" where
  "patchJson key count =
     [CHR 0x0A, CHR 0x09, CHR 0x09] @ ''{'' @
     [CHR 0x0A, CHR 0x09, CHR 0x09, CHR 0x09] @ [CHR 0x22] @ ''metadata'' @ [CHR 0x22] @ '': {'' @
     [CHR 0x0A, CHR 0x09, CHR 0x09, CHR 0x09, CHR 0x09] @
       [CHR 0x22] @ ''annotations'' @ [CHR 0x22] @ '': {'' @
     [CHR 0x0A, CHR 0x09, CHR 0x09, CHR 0x09, CHR 0x09, CHR 0x09] @
       [CHR 0x22] @ key @ [CHR 0x22] @ '': '' @ [CHR 0x22] @ Sprintf_d (sint count) @ [CHR 0x22] @
     [CHR 0x0A, CHR 0x09, CHR 0x09, CHR 0x09, CHR 0x09] @ ''}'' @
     [CHR 0x0A, CHR 0x09, CHR 0x09, CHR 0x09] @ ''}'' @
     [CHR 0x0A, CHR 0x09, CHR 0x09] @ ''}''"

definition annotateEvent :: "world \<Rightarrow> Event \<Rightarrow> string option \<times> world" where
  "annotateEvent w event =
     (let body = patchJson annotationKey (Count event);
          err = clientset w (Event_Namespace event) event body
      in (err, emit w (CallPatchWithEventNamespace (Event_Namespace event) event body err)))"

text \<open>
  Lines 72 to 99: what \<^verbatim>\<open>onEvent\<close> does with an event that passed the gate.
\<close>

definition forward :: "world \<Rightarrow> Event \<Rightarrow> world" where
  "forward w event =
     (let (ev, w2) = newEnhancedEvent w event;
          w3 = enrichLabels w2 ev event;
          w4 = enrichAnnotations w3 ev event;
          w5 = emit w4 (CallHandler ev);
          (err, w6) = annotateEvent w5 event
      in case err of
           None \<Rightarrow> w6
         | Some e \<Rightarrow> emit w6 (LogError e ''Cannot update annotations of the event''))"

text \<open>
  Lines 57 to 100. The argument is the pointer \<^verbatim>\<open>event\<close>; reading a field through a
  \<^verbatim>\<open>nil\<close> pointer panics. Go's types exclude a pointer to another kind of cell.
\<close>

definition onEvent :: "world \<Rightarrow> addr option \<Rightarrow> panic + world" where
  "onEvent w p =
     (case p of
        None \<Rightarrow> Inl NilPointerDereference
      | Some a \<Rightarrow>
          (case load (heap w) a of
             Some (EventCell event) \<Rightarrow>
               (let w1 = emit w (received event)
                in if skipEvent (heap w1) event
                   then Inr (emit w1 (LogDebug [] ''Skip event''))
                   else Inr (forward w1 event))
           | _ \<Rightarrow> Inl InvalidAddress))"

text \<open>
  Names for what happens inside \<open>forward\<close>: the address of the enhanced event, and
  what the label cache and the annotation cache return when they are called.
\<close>

definition enhancedAddr :: "world \<Rightarrow> Event \<Rightarrow> addr" where
  "enhancedAddr w event = fst (newEnhancedEvent w event)"

definition labelsResult :: "world \<Rightarrow> Event \<Rightarrow> string + addr option" where
  "labelsResult w event =
     (let (ev, w2) = newEnhancedEvent w event
      in fst (GetLabelsWithCache (labelCache w2) (heap w2) (InvolvedObject event)))"

definition annotationsResult :: "world \<Rightarrow> Event \<Rightarrow> string + addr option" where
  "annotationsResult w event =
     (let (ev, w2) = newEnhancedEvent w event;
          w3 = enrichLabels w2 ev event
      in fst (GetAnnotationsWithCache (annotationCache w3) (heap w3) (InvolvedObject event)))"

text \<open>
  Lines 47 to 55 and 115 to 117. The callbacks receive an \<^verbatim>\<open>interface{}\<close>: a pointer to
  an event (which may be \<^verbatim>\<open>nil\<close>), or a value of another type, on which the type
  assertion panics.
\<close>

datatype obj = EventPointer "addr option" | OtherObject

definition OnAdd :: "world \<Rightarrow> obj \<Rightarrow> panic + world" where
  "OnAdd w x = (case x of EventPointer event \<Rightarrow> onEvent w event | OtherObject \<Rightarrow> Inl TypeAssertionFailed)"

definition OnUpdate :: "world \<Rightarrow> obj \<Rightarrow> obj \<Rightarrow> panic + world" where
  "OnUpdate w oldObj newObj =
     (case newObj of
        EventPointer event \<Rightarrow> onEvent w event
      | OtherObject \<Rightarrow> Inl TypeAssertionFailed)"

definition OnDelete :: "world \<Rightarrow> obj \<Rightarrow> panic + world" where
  "OnDelete w x = Inr w"

section \<open>Reading a trace\<close>

definition newEffects :: "world \<Rightarrow> world \<Rightarrow> effect list" where
  "newEffects w w' = drop (length (trace w)) (trace w')"

fun isHandlerCall :: "effect \<Rightarrow> bool" where
  "isHandlerCall (CallHandler p) = True"
| "isHandlerCall x = False"

fun isFetch :: "effect \<Rightarrow> bool" where
  "isFetch (CallGetLabelsWithCache r res) = True"
| "isFetch (CallGetAnnotationsWithCache r res) = True"
| "isFetch x = False"

fun isPatch :: "effect \<Rightarrow> bool" where
  "isPatch (CallPatchWithEventNamespace ns event body err) = True"
| "isPatch x = False"

text \<open>The error line that follows a call which returned an error.\<close>

definition errorLog :: "string \<Rightarrow> string + 'a \<Rightarrow> effect list" where
  "errorLog msg res = (case res of Inl err \<Rightarrow> [LogError err msg] | Inr x \<Rightarrow> [])"

definition patchLog :: "string option \<Rightarrow> effect list" where
  "patchLog err =
     (case err of
        None \<Rightarrow> []
      | Some e \<Rightarrow> [LogError e ''Cannot update annotations of the event''])"

text \<open>What a call of a cache attaches: the mapping it returned, or nothing on an error.\<close>

definition attached :: "string + addr option \<Rightarrow> addr option" where
  "attached res = (case res of Inl err \<Rightarrow> None | Inr m \<Rightarrow> m)"

section \<open>The API server's side of the watermark\<close>

text \<open>
  The watermark is stored on the event record in the cluster, not in the process. The
  API server applies a patch that succeeded to the annotations of the record, and the
  next notification for the record carries them. The patch that \<^verbatim>\<open>annotateEvent\<close> sends
  is a JSON object \<^verbatim>\<open>{"metadata": {"annotations": {key: value}}}\<close>; applying it sets the
  one key. The strings of a JSON text are found between double quotes (the bodies
  sent here hold no escape).
\<close>

fun betweenQuotes :: "bool \<Rightarrow> string \<Rightarrow> string \<Rightarrow> string list" where
  "betweenQuotes inside cur [] = []"
| "betweenQuotes inside cur (c # cs) =
     (if c = CHR 0x22
      then (if inside then cur # betweenQuotes False [] cs else betweenQuotes True [] cs)
      else betweenQuotes inside (if inside then cur @ [c] else cur) cs)"

definition quotedStrings :: "string \<Rightarrow> string list" where
  "quotedStrings s = betweenQuotes False [] s"

definition applyPatch :: "(string \<rightharpoonup> string) \<Rightarrow> string \<Rightarrow> (string \<rightharpoonup> string)" where
  "applyPatch anns body =
     (case quotedStrings body of
        [m, a, k, v] \<Rightarrow>
          if m = ''metadata'' \<and> a = ''annotations'' then anns(k \<mapsto> v) else anns
      | _ \<Rightarrow> anns)"

text \<open>The annotations of the record after the patches of a trace that returned no error.\<close>

fun persist :: "(string \<rightharpoonup> string) \<Rightarrow> effect list \<Rightarrow> (string \<rightharpoonup> string)" where
  "persist anns [] = anns"
| "persist anns (CallPatchWithEventNamespace ns event body None # xs) =
     persist (applyPatch anns body) xs"
| "persist anns (x # xs) = persist anns xs"

text \<open>
  A notification: the informer hands \<^verbatim>\<open>onEvent\<close> a new event object with the
  annotations of the record and the count of the occurrence.
\<close>

definition deliver :: "world \<Rightarrow> Event \<Rightarrow> (string \<rightharpoonup> string) \<Rightarrow> 32 word \<Rightarrow> panic + world" where
  "deliver w rcd anns c =
     (let (m, h1) = alloc (heap w) (MapCell anns);
          (p, h2) = alloc h1 (EventCell (rcd\<lparr>Event_Annotations := Some m, Count := c\<rparr>))
      in onEvent (w\<lparr>heap := h2\<rparr>) (Some p))"

text \<open>
  The state of the gate is the watermark on the record. An annotation that \<^verbatim>\<open>Atoi\<close>
  rejects counts as no watermark, as \<^verbatim>\<open>onEvent\<close> treats it.
\<close>

datatype DedupGate = Unseen | Seen int

definition gateState :: "(string \<rightharpoonup> string) \<Rightarrow> DedupGate" where
  "gateState anns =
     (case anns annotationKey of
        None \<Rightarrow> Unseen
      | Some a \<Rightarrow> (case Atoi a of Inl err \<Rightarrow> Unseen | Inr v \<Rightarrow> Seen v))"

text \<open>
  One step of the gate: whether the handler was called, the annotations of the record
  afterwards, and the world afterwards. \<open>None\<close> is a panic.
\<close>

definition gateStep ::
  "world \<Rightarrow> Event \<Rightarrow> (string \<rightharpoonup> string) \<Rightarrow> 32 word
     \<Rightarrow> (bool \<times> (string \<rightharpoonup> string) \<times> world) option"
where
  "gateStep w rcd anns c =
     (case deliver w rcd anns c of
        Inl e \<Rightarrow> None
      | Inr w' \<Rightarrow>
          Some (list_ex isHandlerCall (newEffects w w'), persist anns (newEffects w w'), w'))"

text \<open>
  A run of notifications for one record: for each, whether it was forwarded and the
  watermark annotation afterwards.
\<close>

fun run ::
  "world \<Rightarrow> Event \<Rightarrow> (string \<rightharpoonup> string) \<Rightarrow> 32 word list \<Rightarrow> (bool \<times> string option) list option"
where
  "run w rcd anns [] = Some []"
| "run w rcd anns (c # cs) =
     (case gateStep w rcd anns c of
        None \<Rightarrow> None
      | Some (forwarded, anns', w') \<Rightarrow>
          (case run w' rcd anns' cs of
             None \<Rightarrow> None
           | Some r \<Rightarrow> Some ((forwarded, anns' annotationKey) # r)))"

section \<open>The handler's writes\<close>

text \<open>
  \<^verbatim>\<open>EventHandler\<close> is \<^verbatim>\<open>func(event *EnhancedEvent)\<close>. \<open>onEvent\<close> above records the call of the
  handler and leaves out what the handler does to the store. Here a handler is what it
  does to the store, given the pointer it is called with.
\<close>

type_synonym EventHandler = "addr \<Rightarrow> store \<Rightarrow> store"

text \<open>
  Lines 72 to 99 with the handler \<^verbatim>\<open>e.fn\<close> run at line 93. After it, \<^verbatim>\<open>annotateEvent\<close> reads
  the namespace and the count through the pointer \<^verbatim>\<open>event\<close>, in the store that the handler
  left.
\<close>

definition forwardWith :: "EventHandler \<Rightarrow> world \<Rightarrow> addr \<Rightarrow> Event \<Rightarrow> panic + world" where
  "forwardWith fn w a event =
     (let (ev, w2) = newEnhancedEvent w event;
          w3 = enrichLabels w2 ev event;
          w4 = enrichAnnotations w3 ev event;
          w5 = (emit w4 (CallHandler ev))\<lparr>heap := fn ev (heap w4)\<rparr>
      in case load (heap w5) a of
           Some (EventCell event') \<Rightarrow>
             (let (err, w6) = annotateEvent w5 event'
              in case err of
                   None \<Rightarrow> Inr w6
                 | Some e \<Rightarrow>
                     Inr (emit w6 (LogError e ''Cannot update annotations of the event'')))
         | _ \<Rightarrow> Inl InvalidAddress)"

text \<open>Lines 57 to 100 with the handler \<^verbatim>\<open>e.fn\<close>.\<close>

definition onEventWith :: "EventHandler \<Rightarrow> world \<Rightarrow> addr option \<Rightarrow> panic + world" where
  "onEventWith fn w p =
     (case p of
        None \<Rightarrow> Inl NilPointerDereference
      | Some a \<Rightarrow>
          (case load (heap w) a of
             Some (EventCell event) \<Rightarrow>
               (let w1 = emit w (received event)
                in if skipEvent (heap w1) event
                   then Inr (emit w1 (LogDebug [] ''Skip event''))
                   else forwardWith fn w1 a event)
           | _ \<Rightarrow> Inl InvalidAddress))"





section \<open>Concrete worlds\<close>

text \<open>
  A pod, an event about it, and a world whose store holds the annotations of the event
  at address 0, the event at address 1 and a map of labels at address 2. The
  parameters are the annotations and the count of the event, what the label cache has
  memoized, the two authoritative sources, and the answer to a patch.
\<close>

definition podX :: ObjectReference where
  "podX =
     \<lparr>Kind = ''Pod'', Namespace = ''default'', Name = ''x'', UID = ''uid-1'',
      APIVersion = ''v1'', ResourceVersion = ''7'', FieldPath = []\<rparr>"

definition eventX :: "32 word \<Rightarrow> Event" where
  "eventX c =
     \<lparr>Event_Name = ''x.16f'', Event_Namespace = ''default'',
      Event_Annotations = Some 0, InvolvedObject = podX, Reason = ''BackOff'',
      Message = ''Back-off restarting failed container'', Count = c\<rparr>"

definition notFound :: "ObjectReference \<Rightarrow> string + (string \<rightharpoonup> string) option" where
  "notFound r = Inl ''not found''"

definition found :: "(string \<rightharpoonup> string) \<Rightarrow> ObjectReference \<Rightarrow> string + (string \<rightharpoonup> string) option" where
  "found f r = Inr (Some f)"

definition worldX ::
  "(string \<rightharpoonup> string) \<Rightarrow> 32 word \<Rightarrow> (ObjectKey \<rightharpoonup> addr option)
     \<Rightarrow> (ObjectReference \<Rightarrow> string + (string \<rightharpoonup> string) option)
     \<Rightarrow> (ObjectReference \<Rightarrow> string + (string \<rightharpoonup> string) option)
     \<Rightarrow> string option \<Rightarrow> world"
where
  "worldX anns c memo labelSource annotationSource patchError =
     \<lparr>labelCache = \<lparr>entries = memo, source = labelSource\<rparr>,
      annotationCache = \<lparr>entries = Map.empty, source = annotationSource\<rparr>,
      clientset = (\<lambda>ns event body. patchError),
      heap = [MapCell anns, EventCell (eventX c), MapCell [''app'' \<mapsto> ''web'']],
      trace = []\<rparr>"

section \<open>Facts about the model\<close>

subsection \<open>Atoi reads back what \<^verbatim>\<open>%d\<close> prints\<close>

lemma isDigit_digit: "(d::nat) < 10 \<Longrightarrow> isDigit (char_of (48 + d))"
  by (simp add: isDigit_def)

lemma digitVal_digit: "(d::nat) < 10 \<Longrightarrow> digitVal (char_of (48 + d)) = d"
  by (simp add: digitVal_def)

lemma parseDigits_snoc:
  "parseDigits n (cs @ [c]) =
     (case parseDigits n cs of Inl e \<Rightarrow> Inl e | Inr m \<Rightarrow> parseDigits m [c])"
  by (induction cs arbitrary: n) simp_all

lemma parseDigits_formatBits:
  "n \<le> maxUint64 \<Longrightarrow> parseDigits 0 (formatBits n) = Inr n"
proof (induction n rule: formatBits.induct)
  case (1 n)
  show ?case
  proof (cases "n < 10")
    case True
    then show ?thesis
      by (subst formatBits.simps) (simp add: isDigit_digit digitVal_digit maxUint64_def)
  next
    case False
    have q: "n div 10 \<le> maxUint64" using "1.prems" by simp
    have r: "n mod 10 < 10" by simp
    have ih: "parseDigits 0 (formatBits (n div 10)) = Inr (n div 10)"
      using "1.IH" False q by simp
    have small: "\<not> n div 10 \<ge> maxUint64 div 10 + 1"
      using "1.prems" by (simp add: maxUint64_def)
    have whole: "n div 10 * 10 + n mod 10 = n" by simp
    show ?thesis
      using False ih small "1.prems" isDigit_digit [OF r] digitVal_digit [OF r]
      by (subst formatBits.simps) (simp add: parseDigits_snoc whole)
  qed
qed

lemma formatBits_nonempty: "formatBits n \<noteq> []"
  by (subst formatBits.simps) simp

lemma formatBits_digits: "c \<in> set (formatBits n) \<Longrightarrow> isDigit c"
proof (induction n arbitrary: c rule: formatBits.induct)
  case (1 n)
  from "1.prems" have "c \<in> set (if n < 10 then [char_of (48 + n)]
      else formatBits (n div 10) @ [char_of (48 + n mod 10)])"
    by (subst (asm) formatBits.simps) simp
  then show ?case
    using "1.IH" by (auto simp: isDigit_digit split: if_splits)
qed

lemma hd_formatBits: "hd (formatBits n) \<noteq> CHR ''-'' \<and> hd (formatBits n) \<noteq> CHR ''+''"
proof -
  have "hd (formatBits n) \<in> set (formatBits n)" by (simp add: formatBits_nonempty)
  then have "isDigit (hd (formatBits n))" by (rule formatBits_digits)
  then show ?thesis by (auto simp: isDigit_def)
qed

lemma Atoi_Sprintf_d:
  assumes "- (2 ^ 63) \<le> i" "i < 2 ^ 63"
  shows "Atoi (Sprintf_d i) = Inr i"
proof (cases "i < 0")
  case True
  have le: "nat (- i) \<le> maxUint64" using assms True by (simp add: maxUint64_def)
  have ne: "formatBits (nat (- i)) \<noteq> []" by (rule formatBits_nonempty)
  have le63: "\<not> nat (- i) > 2 ^ 63" using assms True by simp
  show ?thesis
    using True ne le63 parseDigits_formatBits [OF le]
    by (simp add: Atoi_def ParseInt_def Sprintf_d_def ParseUint_def)
next
  case False
  have le: "nat i \<le> maxUint64" using assms False by (simp add: maxUint64_def)
  obtain c cs where f: "formatBits (nat i) = c # cs"
    using formatBits_nonempty [of "nat i"] by (cases "formatBits (nat i)") auto
  have c: "c \<noteq> CHR ''-''" "c \<noteq> CHR ''+''"
    using hd_formatBits [of "nat i"] f by simp_all
  have lt63: "\<not> nat i \<ge> 2 ^ 63" using assms False by simp
  show ?thesis
    using False c lt63 parseDigits_formatBits [OF le] f
    by (simp add: Atoi_def ParseInt_def Sprintf_d_def ParseUint_def)
qed

lemma Atoi_Sprintf_d_int32: "Atoi (Sprintf_d (sint (c :: 32 word))) = Inr (sint c)"
proof -
  have "- (2 ^ 31) \<le> sint c" "sint c < 2 ^ 31"
    using sint_ge [of c] sint_lt [of c] by simp_all
  then show ?thesis by (intro Atoi_Sprintf_d) simp_all
qed

subsection \<open>The store\<close>

lemma copyMap_length: "length h \<le> length (snd (copyMap h m))"
  by (simp add: copyMap_def alloc_def split: option.splits cell.splits)

lemma copyMap_take: "n \<le> length h \<Longrightarrow> take n (snd (copyMap h m)) = take n h"
  by (simp add: copyMap_def alloc_def split: option.splits cell.splits)



subsection \<open>The caches\<close>

lemma getWithCache_nth:
  "p < length h \<Longrightarrow> snd (snd (getWithCache c h r)) ! p = h ! p"
  by (simp add: getWithCache_def alloc_def nth_append split: option.splits sum.splits)

lemma getWithCache_length: "length h \<le> length (snd (snd (getWithCache c h r)))"
  by (simp add: getWithCache_def alloc_def split: option.splits sum.splits)

lemma getWithCache_take:
  "n \<le> length h \<Longrightarrow> take n (snd (snd (getWithCache c h r))) = take n h"
  by (simp add: getWithCache_def alloc_def split: option.splits sum.splits)

lemma getWithCache_isl: "isl (fst (getWithCache c h r)) = fetchFails c r"
  by (simp add: getWithCache_def alloc_def fetchFails_def split: option.splits sum.splits)


subsection \<open>The stages of onEvent\<close>

lemma DeepCopy_eq:
  "DeepCopy h event =
     (event\<lparr>Event_Annotations := fst (copyMap h (Event_Annotations event))\<rparr>,
      snd (copyMap h (Event_Annotations event)))"
  by (simp add: DeepCopy_def split_def Let_def)

lemma newEnhancedEvent_eq:
  "newEnhancedEvent w event =
     (length (snd (DeepCopy (heap w) event)),
      w\<lparr>heap := snd (DeepCopy (heap w) event) @
           [EnhancedEventCell \<lparr>Event = fst (DeepCopy (heap w) event),
              Enhanced_InvolvedObject = zeroEnhancedObjectReference\<rparr>]\<rparr>)"
  by (simp add: newEnhancedEvent_def alloc_def split_def Let_def)

lemma enrichLabels_trace:
  "trace (enrichLabels w p event) =
     trace w @
     CallGetLabelsWithCache (InvolvedObject event)
       (fst (getWithCache (labelCache w) (heap w) (InvolvedObject event))) #
     errorLog ''Cannot list labels of the object''
       (fst (getWithCache (labelCache w) (heap w) (InvolvedObject event)))"
  by (simp add: enrichLabels_def GetLabelsWithCache_def split_def Let_def emit_def errorLog_def
      split: sum.splits)

lemma enrichLabels_rest:
  "clientset (enrichLabels w p event) = clientset w"
  "annotationCache (enrichLabels w p event) = annotationCache w"
  "labelCache (enrichLabels w p event) =
     fst (snd (getWithCache (labelCache w) (heap w) (InvolvedObject event)))"
  by (simp_all add: enrichLabels_def GetLabelsWithCache_def split_def Let_def emit_def
      split: sum.splits)

lemma assignInvolvedObject_length: "length (assignInvolvedObject h p f) = length h"
  by (simp add: assignInvolvedObject_def split: option.splits cell.splits)

lemma assignInvolvedObject_take:
  "n \<le> p \<Longrightarrow> take n (assignInvolvedObject h p f) = take n h"
  by (simp add: assignInvolvedObject_def split: option.splits cell.splits)

lemma assignInvolvedObject_nth:
  "p < length h \<Longrightarrow> h ! p = EnhancedEventCell e \<Longrightarrow>
   assignInvolvedObject h p f ! p =
     EnhancedEventCell (e\<lparr>Enhanced_InvolvedObject := f (Enhanced_InvolvedObject e)\<rparr>)"
  by (simp add: assignInvolvedObject_def load_def)

lemma enrichLabels_length: "length (heap w) \<le> length (heap (enrichLabels w p event))"
  using getWithCache_length [of "heap w" "labelCache w" "InvolvedObject event"]
  by (simp add: enrichLabels_def GetLabelsWithCache_def split_def Let_def emit_def
      assignInvolvedObject_length split: sum.splits)

lemma enrichLabels_take:
  "n \<le> p \<Longrightarrow> n \<le> length (heap w) \<Longrightarrow>
   take n (heap (enrichLabels w p event)) = take n (heap w)"
  by (simp add: enrichLabels_def GetLabelsWithCache_def split_def Let_def emit_def
      assignInvolvedObject_take getWithCache_take split: sum.splits)

lemma enrichLabels_nth:
  assumes "p < length (heap w)" "heap w ! p = EnhancedEventCell e"
  shows "heap (enrichLabels w p event) ! p =
     EnhancedEventCell
       (case fst (getWithCache (labelCache w) (heap w) (InvolvedObject event)) of
          Inl err \<Rightarrow> e
        | Inr m \<Rightarrow> e\<lparr>Enhanced_InvolvedObject := (Enhanced_InvolvedObject e)
                      \<lparr>Labels := m, ObjectReference := InvolvedObject event\<rparr>\<rparr>)"
proof -
  let ?g = "getWithCache (labelCache w) (heap w) (InvolvedObject event)"
  have n: "snd (snd ?g) ! p = EnhancedEventCell e"
    using assms by (simp add: getWithCache_nth)
  have l: "p < length (snd (snd ?g))"
    using assms(1) getWithCache_length [of "heap w" "labelCache w" "InvolvedObject event"]
    by simp
  show ?thesis
    using n l
    by (simp add: enrichLabels_def GetLabelsWithCache_def split_def Let_def emit_def
        assignInvolvedObject_nth split: sum.splits)
qed

lemma enrichAnnotations_trace:
  "trace (enrichAnnotations w p event) =
     trace w @
     CallGetAnnotationsWithCache (InvolvedObject event)
       (fst (getWithCache (annotationCache w) (heap w) (InvolvedObject event))) #
     errorLog ''Cannot list annotations of the object''
       (fst (getWithCache (annotationCache w) (heap w) (InvolvedObject event)))"
  by (simp add: enrichAnnotations_def GetAnnotationsWithCache_def split_def Let_def emit_def errorLog_def
      split: sum.splits)

lemma enrichAnnotations_rest:
  "clientset (enrichAnnotations w p event) = clientset w"
  "labelCache (enrichAnnotations w p event) = labelCache w"
  "annotationCache (enrichAnnotations w p event) =
     fst (snd (getWithCache (annotationCache w) (heap w) (InvolvedObject event)))"
  by (simp_all add: enrichAnnotations_def GetAnnotationsWithCache_def split_def Let_def emit_def
      split: sum.splits)


lemma enrichAnnotations_length: "length (heap w) \<le> length (heap (enrichAnnotations w p event))"
  using getWithCache_length [of "heap w" "annotationCache w" "InvolvedObject event"]
  by (simp add: enrichAnnotations_def GetAnnotationsWithCache_def split_def Let_def emit_def
      assignInvolvedObject_length split: sum.splits)

lemma enrichAnnotations_take:
  "n \<le> p \<Longrightarrow> n \<le> length (heap w) \<Longrightarrow>
   take n (heap (enrichAnnotations w p event)) = take n (heap w)"
  by (simp add: enrichAnnotations_def GetAnnotationsWithCache_def split_def Let_def emit_def
      assignInvolvedObject_take getWithCache_take split: sum.splits)

lemma enrichAnnotations_nth:
  assumes "p < length (heap w)" "heap w ! p = EnhancedEventCell e"
  shows "heap (enrichAnnotations w p event) ! p =
     EnhancedEventCell
       (case fst (getWithCache (annotationCache w) (heap w) (InvolvedObject event)) of
          Inl err \<Rightarrow> e
        | Inr m \<Rightarrow> e\<lparr>Enhanced_InvolvedObject := (Enhanced_InvolvedObject e)
                      \<lparr>Annotations := m, ObjectReference := InvolvedObject event\<rparr>\<rparr>)"
proof -
  let ?g = "getWithCache (annotationCache w) (heap w) (InvolvedObject event)"
  have n: "snd (snd ?g) ! p = EnhancedEventCell e"
    using assms by (simp add: getWithCache_nth)
  have l: "p < length (snd (snd ?g))"
    using assms(1) getWithCache_length [of "heap w" "annotationCache w" "InvolvedObject event"]
    by simp
  show ?thesis
    using n l
    by (simp add: enrichAnnotations_def GetAnnotationsWithCache_def split_def Let_def emit_def
        assignInvolvedObject_nth split: sum.splits)
qed

subsection \<open>The forward path\<close>

lemma heap_emit [simp]: "heap (emit w x) = heap w"
  and labelCache_emit [simp]: "labelCache (emit w x) = labelCache w"
  and annotationCache_emit [simp]: "annotationCache (emit w x) = annotationCache w"
  and clientset_emit [simp]: "clientset (emit w x) = clientset w"
  and trace_emit [simp]: "trace (emit w x) = trace w @ [x]"
  by (simp_all add: emit_def)

lemma annotateEvent_eq:
  "annotateEvent w event =
     (clientset w (Event_Namespace event) event (patchJson annotationKey (Count event)),
      emit w (CallPatchWithEventNamespace (Event_Namespace event) event
                (patchJson annotationKey (Count event))
                (clientset w (Event_Namespace event) event
                   (patchJson annotationKey (Count event)))))"
  by (simp add: annotateEvent_def Let_def)

lemma forward_eq:
  "forward w event =
     (let p = enhancedAddr w event;
          w2 = snd (newEnhancedEvent w event);
          w4 = enrichAnnotations (enrichLabels w2 p event) p event;
          err = clientset w4 (Event_Namespace event) event
                  (patchJson annotationKey (Count event));
          w6 = emit (emit w4 (CallHandler p))
                 (CallPatchWithEventNamespace (Event_Namespace event) event
                    (patchJson annotationKey (Count event)) err)
      in w6\<lparr>trace := trace w6 @ patchLog err\<rparr>)"
  by (simp add: forward_def enhancedAddr_def annotateEvent_eq Let_def split_def patchLog_def
      emit_def split: option.splits)

lemma newEnhancedEvent_rest:
  "trace (snd (newEnhancedEvent w event)) = trace w"
  "labelCache (snd (newEnhancedEvent w event)) = labelCache w"
  "annotationCache (snd (newEnhancedEvent w event)) = annotationCache w"
  "clientset (snd (newEnhancedEvent w event)) = clientset w"
  by (simp_all add: newEnhancedEvent_eq)

lemma labelsResult_eq:
  "labelsResult w event =
     fst (getWithCache (labelCache w) (heap (snd (newEnhancedEvent w event)))
            (InvolvedObject event))"
  by (simp add: labelsResult_def GetLabelsWithCache_def split_def Let_def newEnhancedEvent_rest)

lemma annotationsResult_eq:
  "annotationsResult w event =
     fst (getWithCache (annotationCache w)
            (heap (enrichLabels (snd (newEnhancedEvent w event)) (enhancedAddr w event) event))
            (InvolvedObject event))"
  by (simp add: annotationsResult_def GetAnnotationsWithCache_def split_def Let_def
      newEnhancedEvent_rest enrichLabels_rest enhancedAddr_def)

lemma forward_clientset: "clientset (forward w event) = clientset w"
  by (simp add: forward_eq Let_def enrichAnnotations_rest enrichLabels_rest newEnhancedEvent_rest)

lemma forward_trace:
  "trace (forward w event) =
     trace w @
     CallGetLabelsWithCache (InvolvedObject event) (labelsResult w event) #
     errorLog ''Cannot list labels of the object'' (labelsResult w event) @
     CallGetAnnotationsWithCache (InvolvedObject event) (annotationsResult w event) #
     errorLog ''Cannot list annotations of the object'' (annotationsResult w event) @
     [CallHandler (enhancedAddr w event),
      CallPatchWithEventNamespace (Event_Namespace event) event
        (patchJson annotationKey (Count event))
        (clientset w (Event_Namespace event) event (patchJson annotationKey (Count event)))] @
     patchLog (clientset w (Event_Namespace event) event (patchJson annotationKey (Count event)))"
  by (simp add: forward_eq Let_def enrichAnnotations_trace enrichLabels_trace
      enrichAnnotations_rest enrichLabels_rest newEnhancedEvent_rest
      labelsResult_eq annotationsResult_eq)

lemma enhancedAddr_eq: "enhancedAddr w event = length (snd (DeepCopy (heap w) event))"
  by (simp add: enhancedAddr_def newEnhancedEvent_eq)

lemma DeepCopy_length: "length h \<le> length (snd (DeepCopy h event))"
  by (simp add: DeepCopy_eq copyMap_length)

lemma DeepCopy_take: "n \<le> length h \<Longrightarrow> take n (snd (DeepCopy h event)) = take n h"
  by (simp add: DeepCopy_eq copyMap_take)

lemma enhancedAddr_fresh: "length (heap w) \<le> enhancedAddr w event"
  by (simp add: enhancedAddr_eq DeepCopy_length)

lemma heap_forward:
  "heap (forward w event) =
     heap (enrichAnnotations
             (enrichLabels (snd (newEnhancedEvent w event)) (enhancedAddr w event) event)
             (enhancedAddr w event) event)"
  by (simp add: forward_eq Let_def)

lemma forward_frame: "take (length (heap w)) (heap (forward w event)) = heap w"
proof -
  let ?p = "enhancedAddr w event"
  let ?w2 = "snd (newEnhancedEvent w event)"
  let ?w3 = "enrichLabels ?w2 ?p event"
  have p: "length (heap w) \<le> ?p" by (rule enhancedAddr_fresh)
  have l2: "length (heap w) \<le> length (heap ?w2)"
    using DeepCopy_length [of "heap w" event] by (simp add: newEnhancedEvent_eq)
  have l3: "length (heap w) \<le> length (heap ?w3)"
    using l2 enrichLabels_length [of ?w2 ?p event] by simp
  have "take (length (heap w)) (heap (forward w event)) = take (length (heap w)) (heap ?w3)"
    using p l3 by (simp add: heap_forward enrichAnnotations_take)
  also have "\<dots> = take (length (heap w)) (heap ?w2)"
    using p l2 by (simp add: enrichLabels_take)
  also have "\<dots> = heap w"
    by (simp add: newEnhancedEvent_eq DeepCopy_take DeepCopy_length)
  finally show ?thesis .
qed

lemma forward_enhanced:
  "load (heap (forward w event)) (enhancedAddr w event) =
     Some (EnhancedEventCell
       \<lparr>Event = fst (DeepCopy (heap w) event),
        Enhanced_InvolvedObject =
          \<lparr>ObjectReference =
             (if isl (labelsResult w event) \<and> isl (annotationsResult w event)
              then zeroObjectReference else InvolvedObject event),
           Labels = attached (labelsResult w event),
           Annotations = attached (annotationsResult w event)\<rparr>\<rparr>)"
proof -
  let ?p = "enhancedAddr w event"
  let ?w2 = "snd (newEnhancedEvent w event)"
  let ?w3 = "enrichLabels ?w2 ?p event"
  let ?w4 = "enrichAnnotations ?w3 ?p event"
  let ?e0 = "\<lparr>Event = fst (DeepCopy (heap w) event),
              Enhanced_InvolvedObject = zeroEnhancedObjectReference\<rparr>"
  have p2: "?p < length (heap ?w2)"
    by (simp add: enhancedAddr_eq newEnhancedEvent_eq)
  have c2: "heap ?w2 ! ?p = EnhancedEventCell ?e0"
    by (simp add: enhancedAddr_eq newEnhancedEvent_eq)
  have p3: "?p < length (heap ?w3)"
    using p2 enrichLabels_length [of ?w2 ?p event] by simp
  have p4: "?p < length (heap ?w4)"
    using p3 enrichAnnotations_length [of ?w3 ?p event] by simp
  note c3 = enrichLabels_nth [OF p2 c2, of event]
  note c4 = enrichAnnotations_nth [OF p3 c3, of event]
  show ?thesis
    using p4 c4
    by (simp add: load_def heap_forward labelsResult_eq annotationsResult_eq
        enrichLabels_rest newEnhancedEvent_rest attached_def zeroEnhancedObjectReference_def
        split: sum.splits)
qed

lemma labelsResult_isl: "isl (labelsResult w event) = fetchFails (labelCache w) (InvolvedObject event)"
  by (simp add: labelsResult_eq getWithCache_isl)

lemma annotationsResult_isl:
  "isl (annotationsResult w event) = fetchFails (annotationCache w) (InvolvedObject event)"
  by (simp add: annotationsResult_eq getWithCache_isl)



subsection \<open>onEvent\<close>

lemma onEvent_skip:
  "load (heap w) a = Some (EventCell event) \<Longrightarrow> skipEvent (heap w) event \<Longrightarrow>
   onEvent w (Some a) = Inr (w\<lparr>trace := trace w @ [received event, LogDebug [] ''Skip event'']\<rparr>)"
  by (simp add: onEvent_def Let_def emit_def)

lemma onEvent_forward:
  "load (heap w) a = Some (EventCell event) \<Longrightarrow> \<not> skipEvent (heap w) event \<Longrightarrow>
   onEvent w (Some a) = Inr (forward (emit w (received event)) event)"
  by (simp add: onEvent_def Let_def)

subsection \<open>Reading the trace of a call\<close>

lemma enhancedAddr_emit: "enhancedAddr (emit w x) event = enhancedAddr w event"
  by (simp add: enhancedAddr_eq)

lemma labelsResult_emit: "labelsResult (emit w x) event = labelsResult w event"
  by (simp add: labelsResult_eq newEnhancedEvent_eq)

lemma enrichLabels_heap_cong:
  "heap w = heap v \<Longrightarrow> labelCache w = labelCache v \<Longrightarrow>
   heap (enrichLabels w p event) = heap (enrichLabels v p event)"
  by (simp add: enrichLabels_def GetLabelsWithCache_def split_def Let_def emit_def
      split: sum.splits)

lemma annotationsResult_emit: "annotationsResult (emit w x) event = annotationsResult w event"
proof -
  have "heap (enrichLabels (snd (newEnhancedEvent (emit w x) event)) (enhancedAddr w event) event) =
        heap (enrichLabels (snd (newEnhancedEvent w event)) (enhancedAddr w event) event)"
    by (rule enrichLabels_heap_cong) (simp_all add: newEnhancedEvent_eq)
  then show ?thesis
    by (simp add: annotationsResult_eq enhancedAddr_emit)
qed

lemma newEffects_append: "trace w' = trace w @ xs \<Longrightarrow> newEffects w w' = xs"
  by (simp add: newEffects_def)

lemma errorLog_no_call:
  "filter isHandlerCall (errorLog msg res) = []"
  "filter isFetch (errorLog msg res) = []"
  "filter isPatch (errorLog msg res) = []"
  by (simp_all add: errorLog_def split: sum.splits)

lemma patchLog_no_call:
  "filter isHandlerCall (patchLog err) = []"
  "filter isFetch (patchLog err) = []"
  "filter isPatch (patchLog err) = []"
  by (simp_all add: patchLog_def split: option.splits)

lemma received_no_call:
  "\<not> isHandlerCall (received event)" "\<not> isFetch (received event)"
  "\<not> isPatch (received event)"
  by (simp_all add: received_def)

lemma onEvent_forward_trace:
  assumes "load (heap w) a = Some (EventCell event)" "\<not> skipEvent (heap w) event"
  shows "newEffects w (forward (emit w (received event)) event) =
     received event #
     CallGetLabelsWithCache (InvolvedObject event) (labelsResult w event) #
     errorLog ''Cannot list labels of the object'' (labelsResult w event) @
     CallGetAnnotationsWithCache (InvolvedObject event) (annotationsResult w event) #
     errorLog ''Cannot list annotations of the object'' (annotationsResult w event) @
     [CallHandler (enhancedAddr w event),
      CallPatchWithEventNamespace (Event_Namespace event) event
        (patchJson annotationKey (Count event))
        (clientset w (Event_Namespace event) event (patchJson annotationKey (Count event)))] @
     patchLog (clientset w (Event_Namespace event) event (patchJson annotationKey (Count event)))"
  by (rule newEffects_append)
     (simp add: forward_trace labelsResult_emit annotationsResult_emit enhancedAddr_emit)

subsection \<open>The body of the patch\<close>

lemma betweenQuotes_outside:
  "CHR 0x22 \<notin> set pre \<Longrightarrow> betweenQuotes False cur (pre @ rest) = betweenQuotes False cur rest"
  by (induction pre) auto

lemma betweenQuotes_inside:
  "CHR 0x22 \<notin> set s \<Longrightarrow>
   betweenQuotes True cur (s @ CHR 0x22 # rest) = (cur @ s) # betweenQuotes False [] rest"
  by (induction s arbitrary: cur) auto

lemma Sprintf_d_no_quote: "CHR 0x22 \<notin> set (Sprintf_d i)"
proof
  assume "CHR 0x22 \<in> set (Sprintf_d i)"
  then have "CHR 0x22 \<in> set (formatBits (nat (- i))) \<or> CHR 0x22 \<in> set (formatBits (nat i))"
    by (auto simp: Sprintf_d_def split: if_splits)
  then have "isDigit (CHR 0x22)"
    using formatBits_digits by blast
  then show False by (simp add: isDigit_def)
qed

lemma quotedStrings_patchJson:
  assumes "CHR 0x22 \<notin> set key"
  shows "quotedStrings (patchJson key c) =
     [''metadata'', ''annotations'', key, Sprintf_d (sint c)]"
  using betweenQuotes_inside [OF assms, of "[]"]
    betweenQuotes_inside [OF Sprintf_d_no_quote, of "[]" "sint c"]
  by (simp add: quotedStrings_def patchJson_def)

lemma annotationKey_no_quote: "CHR 0x22 \<notin> set annotationKey"
  by (simp add: annotationKey_def)

lemma applyPatch_patchJson:
  "applyPatch anns (patchJson annotationKey c) = anns(annotationKey \<mapsto> Sprintf_d (sint c))"
  by (simp add: applyPatch_def quotedStrings_patchJson [OF annotationKey_no_quote])


lemma forward_calls:
  assumes "load (heap w) a = Some (EventCell event)" "\<not> skipEvent (heap w) event"
  shows "filter (\<lambda>x. isFetch x \<or> isHandlerCall x)
           (newEffects w (forward (emit w (received event)) event)) =
        [CallGetLabelsWithCache (InvolvedObject event) (labelsResult w event),
         CallGetAnnotationsWithCache (InvolvedObject event) (annotationsResult w event),
         CallHandler (enhancedAddr w event)]"
proof -
  have f: "filter (\<lambda>x. isFetch x \<or> isHandlerCall x) (errorLog msg res) = []"
    for msg and res :: "string + addr option"
    by (simp add: errorLog_def split: sum.splits)
  have g: "filter (\<lambda>x. isFetch x \<or> isHandlerCall x) (patchLog err) = []" for err
    by (simp add: patchLog_def split: option.splits)
  show ?thesis
    by (simp add: onEvent_forward_trace [OF assms] f g received_no_call)
qed

lemma onEvent_enhanced:
  "load (heap (forward (emit w (received event)) event)) (enhancedAddr w event) =
     Some (EnhancedEventCell
       \<lparr>Event = fst (DeepCopy (heap w) event),
        Enhanced_InvolvedObject =
          \<lparr>ObjectReference =
             (if isl (labelsResult w event) \<and> isl (annotationsResult w event)
              then zeroObjectReference else InvolvedObject event),
           Labels = attached (labelsResult w event),
           Annotations = attached (annotationsResult w event)\<rparr>\<rparr>)"
  using forward_enhanced [of "emit w (received event)" event]
  by (simp add: labelsResult_emit annotationsResult_emit enhancedAddr_emit)

subsection \<open>The concrete worlds\<close>

lemma worldX_results:
  "labelsResult (worldX anns c Map.empty notFound src err) (eventX c) = Inl ''not found''"
  "annotationsResult (worldX anns c Map.empty notFound notFound err) (eventX c) = Inl ''not found''"
  "annotationsResult (worldX anns c Map.empty notFound (found f) err) (eventX c) = Inr (Some 5)"
  "enhancedAddr (worldX anns c memo lsrc asrc err) (eventX c) = 4"
  by (simp_all add: labelsResult_def annotationsResult_def enhancedAddr_def
      newEnhancedEvent_def enrichLabels_def GetLabelsWithCache_def GetAnnotationsWithCache_def
      getWithCache_def alloc_def DeepCopy_def copyMap_def load_def worldX_def eventX_def
      notFound_def found_def emit_def split_def Let_def)

subsection \<open>The gate\<close>

lemma persist_append: "persist anns (xs @ ys) = persist (persist anns xs) ys"
  by (induction anns xs rule: persist.induct) simp_all

lemma persist_no_patch: "filter isPatch xs = [] \<Longrightarrow> persist anns xs = anns"
  by (induction anns xs rule: persist.induct) (simp_all split: if_splits)

lemma deliver_eq:
  "deliver w rcd anns c =
     onEvent (w\<lparr>heap := heap w @ [MapCell anns,
        EventCell (rcd\<lparr>Event_Annotations := Some (length (heap w)), Count := c\<rparr>)]\<rparr>)
       (Some (Suc (length (heap w))))"
  by (simp add: deliver_def alloc_def)

lemma skipEvent_delivered:
  "skipEvent (heap w @ [MapCell anns, cell])
     (rcd\<lparr>Event_Annotations := Some (length (heap w)), Count := c\<rparr>) =
   (case gateState anns of Unseen \<Rightarrow> False | Seen v \<Rightarrow> sint c \<le> v)"
  by (simp add: skipEvent_def mapIndex_def load_def gateState_def
      split: option.splits sum.splits)

lemma gateStep_discard:
  assumes "gateState anns = Seen v" "sint c \<le> v"
  shows "\<exists>w'. gateStep w rcd anns c = Some (False, anns, w') \<and> clientset w' = clientset w"
proof -
  let ?ev = "rcd\<lparr>Event_Annotations := Some (length (heap w)), Count := c\<rparr>"
  let ?w0 = "w\<lparr>heap := heap w @ [MapCell anns, EventCell ?ev]\<rparr>"
  have l: "load (heap ?w0) (Suc (length (heap w))) = Some (EventCell ?ev)"
    by (simp add: load_def nth_append)
  have s: "skipEvent (heap ?w0) ?ev"
    using assms by (simp add: skipEvent_delivered)
  show ?thesis
    by (simp add: gateStep_def deliver_eq onEvent_skip [OF l s] newEffects_def
        received_no_call persist_no_patch)
qed

lemma gateStep_forward:
  assumes ok: "\<forall>ns event body. clientset w ns event body = None"
    and st: "gateState anns = Unseen \<or> (\<exists>v. gateState anns = Seen v \<and> v < sint c)"
  shows "\<exists>w'. gateStep w rcd anns c =
           Some (True, anns(annotationKey \<mapsto> Sprintf_d (sint c)), w')
         \<and> clientset w' = clientset w"
proof -
  let ?ev = "rcd\<lparr>Event_Annotations := Some (length (heap w)), Count := c\<rparr>"
  let ?w0 = "w\<lparr>heap := heap w @ [MapCell anns, EventCell ?ev]\<rparr>"
  let ?w' = "forward (emit ?w0 (received ?ev)) ?ev"
  have l: "load (heap ?w0) (Suc (length (heap w))) = Some (EventCell ?ev)"
    by (simp add: load_def nth_append)
  have s: "\<not> skipEvent (heap ?w0) ?ev"
    using st by (auto simp: skipEvent_delivered)
  have n: "newEffects w ?w' = newEffects ?w0 ?w'"
    by (simp add: newEffects_def)
  have c: "clientset ?w0 ns event body = None" for ns event body
    using ok by simp
  have t: "newEffects w ?w' =
     (received ?ev #
      CallGetLabelsWithCache (InvolvedObject ?ev) (labelsResult ?w0 ?ev) #
      errorLog ''Cannot list labels of the object'' (labelsResult ?w0 ?ev) @
      CallGetAnnotationsWithCache (InvolvedObject ?ev) (annotationsResult ?w0 ?ev) #
      errorLog ''Cannot list annotations of the object'' (annotationsResult ?w0 ?ev)) @
     [CallHandler (enhancedAddr ?w0 ?ev),
      CallPatchWithEventNamespace (Event_Namespace ?ev) ?ev (patchJson annotationKey c) None]"
    unfolding n onEvent_forward_trace [OF l s] c by (simp add: patchLog_def)
  have h: "list_ex isHandlerCall (newEffects w ?w')"
    unfolding t by simp
  have p: "persist anns (newEffects w ?w') = anns(annotationKey \<mapsto> Sprintf_d (sint c))"
    unfolding t persist_append
    by (simp add: persist_no_patch errorLog_no_call received_no_call applyPatch_patchJson)
  have k: "clientset ?w' = clientset w"
    by (simp add: forward_clientset)
  show ?thesis
    using h p k by (simp add: gateStep_def deliver_eq onEvent_forward [OF l s])
qed

lemma gateState_written:
  "gateState (anns(annotationKey \<mapsto> Sprintf_d (sint (c :: 32 word)))) = Seen (sint c)"
  by (simp add: gateState_def Atoi_Sprintf_d_int32)

lemma Sprintf_d_1: "Sprintf_d 1 = ''1''"
  by code_simp

lemma Sprintf_d_3: "Sprintf_d 3 = ''3''"
  by code_simp

lemma gate_scenario:
  assumes ok: "\<forall>ns event body. clientset w ns event body = None"
  shows "run w rcd Map.empty [1, 1, 3, 2] =
     Some [(True, Some ''1''), (False, Some ''1''), (True, Some ''3''), (False, Some ''3'')]"
proof -
  let ?a1 = "[annotationKey \<mapsto> ''1'']"
  let ?a3 = "[annotationKey \<mapsto> ''3'']"
  have g0: "gateState Map.empty = Unseen" by (simp add: gateState_def)
  have g1: "gateState ?a1 = Seen 1"
    using gateState_written [of Map.empty 1] by (simp add: Sprintf_d_1 Sprintf_d_3)
  have g3: "gateState ?a3 = Seen 3"
    using gateState_written [of Map.empty 3] by (simp add: Sprintf_d_1 Sprintf_d_3)
  obtain w1 where s1: "gateStep w rcd Map.empty 1 = Some (True, ?a1, w1)"
    and c1: "clientset w1 = clientset w"
    using gateStep_forward [OF ok, of Map.empty 1 rcd] g0 by (auto simp: Sprintf_d_1 Sprintf_d_3)
  obtain w2 where s2: "gateStep w1 rcd ?a1 1 = Some (False, ?a1, w2)"
    and c2: "clientset w2 = clientset w1"
    using gateStep_discard [OF g1, of 1 w1 rcd] by auto
  have ok2: "\<forall>ns event body. clientset w2 ns event body = None"
    using ok c1 c2 by simp
  obtain w3 where s3: "gateStep w2 rcd ?a1 3 = Some (True, ?a3, w3)"
    and c3: "clientset w3 = clientset w2"
    using gateStep_forward [OF ok2, of ?a1 3 rcd] g1 by (auto simp: Sprintf_d_1 Sprintf_d_3)
  obtain w4 where s4: "gateStep w3 rcd ?a3 2 = Some (False, ?a3, w4)"
    using gateStep_discard [OF g3, of 2 w3 rcd] by auto
  show ?thesis
    by (simp add: s1 s2 s3 s4)
qed

subsection \<open>What the enhanced event shares\<close>







lemma load_prefix: "take (length h) h' = h \<Longrightarrow> load h a = Some c \<Longrightarrow> load h' a = Some c"
proof -
  assume t: "take (length h) h' = h" and l: "load h a = Some c"
  from l have a: "a < length h" "h ! a = c"
    by (auto simp: load_def split: if_splits)
  have "length h \<le> length h'"
    by (metis t length_take min.cobounded2 min.commute)
  moreover have "h' ! a = take (length h) h' ! a" using a by simp
  ultimately show ?thesis using a t by (simp add: load_def)
qed

subsection \<open>Running the handler\<close>

lemma forwardWith_eq:
  assumes "load (fn (enhancedAddr w event) (heap (forward w event))) a = Some (EventCell event)"
  shows "forwardWith fn w a event =
     Inr ((forward w event)\<lparr>heap := fn (enhancedAddr w event) (heap (forward w event))\<rparr>)"
  using assms
  by (simp add: forwardWith_def forward_eq enhancedAddr_def annotateEvent_eq Let_def split_def
      patchLog_def emit_def split: option.splits)




















lemma onEventWith_no_write: "onEventWith (\<lambda>p h. h) w p = onEvent w p"
proof (cases p)
  case None
  then show ?thesis by (simp add: onEventWith_def onEvent_def)
next
  case (Some a)
  show ?thesis
  proof (cases "\<exists>event. load (heap w) a = Some (EventCell event)")
    case False
    then show ?thesis
      using Some by (auto simp: onEventWith_def onEvent_def split: option.splits cell.splits)
  next
    case True
    then obtain event where l: "load (heap w) a = Some (EventCell event)" by blast
    let ?w1 = "emit w (received event)"
    have "take (length (heap ?w1)) (heap (forward ?w1 event)) = heap ?w1"
      by (rule forward_frame)
    then have "load (heap (forward ?w1 event)) a = Some (EventCell event)"
      using l load_prefix [of "heap ?w1" "heap (forward ?w1 event)" a "EventCell event"]
      by simp
    then have "forwardWith (\<lambda>p h. h) ?w1 a event = Inr (forward ?w1 event)"
      using forwardWith_eq [of "\<lambda>p h. h" ?w1 event a] by simp
    then show ?thesis
      using Some l by (simp add: onEventWith_def onEvent_def Let_def)
  qed
qed


section \<open>The dedup gate\<close>

text \<open>
  C1. Dedup soundness. When the watermark annotation of an incoming event is present and
  \<^verbatim>\<open>Atoi\<close> reads it as an integer \<open>v\<close> with \<open>v \<ge> event.Count\<close> (equality included),
  \<^verbatim>\<open>onEvent\<close> returns after its two debug lines and changes nothing else: the trace holds
  no call of the handler, no call of a cache and no patch, and the caches and the store
  are as before.
\<close>

theorem dedup_soundness:
  assumes "load (heap w) a = Some (EventCell event)"
    and "mapIndex (heap w) (Event_Annotations event) annotationKey = Some s"
    and "Atoi s = Inr v"
    and "v \<ge> sint (Count event)"
  shows "\<exists>w'. onEvent w (Some a) = Inr w'
    \<and> w' = w\<lparr>trace := trace w @ [received event, LogDebug [] ''Skip event'']\<rparr>
    \<and> filter isHandlerCall (newEffects w w') = []
    \<and> filter isFetch (newEffects w w') = []
    \<and> filter isPatch (newEffects w w') = []"
proof -
  have "skipEvent (heap w) event"
    using assms(2-4) by (simp add: skipEvent_def)
  then show ?thesis
    using assms(1) by (simp add: onEvent_skip newEffects_def received_no_call)
qed


text \<open>
  The theorem at an event with count 3 whose watermark annotation is \<^verbatim>\<open>"3"\<close>: equal to
  the count, and discarded.
\<close>

theorem dedup_soundness_witness:
  "map_sum id trace
     (onEvent (worldX [annotationKey \<mapsto> ''3''] 3 Map.empty notFound notFound None) (Some 1)) =
   Inr [received (eventX 3), LogDebug [] ''Skip event'']"
proof -
  let ?w = "worldX [annotationKey \<mapsto> ''3''] 3 Map.empty notFound notFound None"
  have 1: "load (heap ?w) 1 = Some (EventCell (eventX 3))"
    by (simp add: worldX_def load_def)
  have 2: "mapIndex (heap ?w) (Event_Annotations (eventX 3)) annotationKey = Some ''3''"
    by (simp add: worldX_def eventX_def mapIndex_def load_def)
  have 3: "Atoi ''3'' = Inr 3"
    by (simp add: Atoi_def ParseInt_def ParseUint_def isDigit_def digitVal_def maxUint64_def)
  have 4: "(3::int) \<ge> sint (Count (eventX 3))"
    by (simp add: eventX_def)
  from dedup_soundness [OF 1 2 3 4] show ?thesis
    by (auto simp: worldX_def)
qed


text \<open>
  C2. Dedup completeness. When an incoming event has no watermark annotation, or one
  that \<^verbatim>\<open>Atoi\<close> reads as an integer below \<open>event.Count\<close>, one call of \<^verbatim>\<open>onEvent\<close> returns
  and its trace holds exactly one call of the handler, for every state of the two
  caches, every answer of their sources and every answer to the patch.
\<close>

theorem dedup_completeness:
  assumes "load (heap w) a = Some (EventCell event)"
    and "mapIndex (heap w) (Event_Annotations event) annotationKey = None
         \<or> (\<exists>s v. mapIndex (heap w) (Event_Annotations event) annotationKey = Some s
                \<and> Atoi s = Inr v \<and> v < sint (Count event))"
  shows "\<exists>w'. onEvent w (Some a) = Inr w'
    \<and> length (filter isHandlerCall (newEffects w w')) = 1"
proof -
  have ns: "\<not> skipEvent (heap w) event"
    using assms(2) by (auto simp: skipEvent_def)
  show ?thesis
    using assms(1) ns
    by (simp add: onEvent_forward onEvent_forward_trace errorLog_no_call patchLog_no_call
        received_no_call)
qed


text \<open>
  The theorem at an event with count 3 and watermark \<^verbatim>\<open>"2"\<close>, where both fetches and
  the patch fail.
\<close>

theorem dedup_completeness_witness:
  "map_sum id (\<lambda>w'. length (filter isHandlerCall (trace w')))
     (onEvent (worldX [annotationKey \<mapsto> ''2''] 3 Map.empty notFound notFound (Some ''timeout''))
        (Some 1)) =
   Inr 1"
proof -
  let ?w = "worldX [annotationKey \<mapsto> ''2''] 3 Map.empty notFound notFound (Some ''timeout'')"
  have 1: "load (heap ?w) 1 = Some (EventCell (eventX 3))"
    by (simp add: worldX_def load_def)
  have 2: "mapIndex (heap ?w) (Event_Annotations (eventX 3)) annotationKey = Some ''2''"
    by (simp add: worldX_def eventX_def mapIndex_def load_def)
  have 3: "Atoi ''2'' = Inr 2"
    by (simp add: Atoi_def ParseInt_def ParseUint_def isDigit_def digitVal_def maxUint64_def)
  have 4: "(2::int) < sint (Count (eventX 3))"
    by (simp add: eventX_def)
  have "mapIndex (heap ?w) (Event_Annotations (eventX 3)) annotationKey = None
        \<or> (\<exists>s v. mapIndex (heap ?w) (Event_Annotations (eventX 3)) annotationKey = Some s
               \<and> Atoi s = Inr v \<and> v < sint (Count (eventX 3)))"
    using 2 3 4 by blast
  from dedup_completeness [OF 1 this] show ?thesis
    by (auto simp: newEffects_def worldX_def)
qed


text \<open>
  C3. The gate as a state machine. The state is the watermark on the record, and every
  patch succeeds. From \<open>Unseen\<close>, a notification with any count is forwarded and the
  annotation becomes the count in decimal; from \<open>Seen v\<close>, a count above \<open>v\<close> is
  forwarded and the annotation becomes the count in decimal, and a count of at most \<open>v\<close>
  is discarded and the annotations stay as they are. The annotation just written is read
  back as \<open>Seen\<close> of the count. Starting without a watermark, the counts 1, 1, 3, 2 are
  forwarded with watermark \<^verbatim>\<open>"1"\<close>, discarded, forwarded with watermark \<^verbatim>\<open>"3"\<close>, discarded.
\<close>

theorem dedup_gate_state_machine:
  assumes "\<forall>ns event body. clientset w ns event body = None"
  shows "(gateState anns = Unseen \<longrightarrow>
            (\<exists>w'. gateStep w rcd anns c =
               Some (True, anns(annotationKey \<mapsto> Sprintf_d (sint c)), w')))
    \<and> (\<forall>v. gateState anns = Seen v \<and> v < sint c \<longrightarrow>
            (\<exists>w'. gateStep w rcd anns c =
               Some (True, anns(annotationKey \<mapsto> Sprintf_d (sint c)), w')))
    \<and> gateState (anns(annotationKey \<mapsto> Sprintf_d (sint c))) = Seen (sint c)
    \<and> (\<forall>v. gateState anns = Seen v \<and> sint c \<le> v \<longrightarrow>
            (\<exists>w'. gateStep w rcd anns c = Some (False, anns, w')))
    \<and> run w rcd Map.empty [1, 1, 3, 2] =
        Some [(True, Some ''1''), (False, Some ''1''), (True, Some ''3''), (False, Some ''3'')]"
proof -
  have a: "gateState anns = Unseen \<longrightarrow>
            (\<exists>w'. gateStep w rcd anns c =
               Some (True, anns(annotationKey \<mapsto> Sprintf_d (sint c)), w'))"
    using gateStep_forward [OF assms, of anns c rcd] by blast
  have b: "\<forall>v. gateState anns = Seen v \<and> v < sint c \<longrightarrow>
            (\<exists>w'. gateStep w rcd anns c =
               Some (True, anns(annotationKey \<mapsto> Sprintf_d (sint c)), w'))"
    using gateStep_forward [OF assms, of anns c rcd] by blast
  have d: "\<forall>v. gateState anns = Seen v \<and> sint c \<le> v \<longrightarrow>
            (\<exists>w'. gateStep w rcd anns c = Some (False, anns, w'))"
    using gateStep_discard [of anns _ c w rcd] by blast
  show ?thesis
    using a b d gateState_written [of anns c] gate_scenario [OF assms, of rcd] by blast
qed

text \<open>
  The theorem in a world where every patch succeeds: the first step from no watermark,
  and a forwarding and a discarding step from the watermark \<^verbatim>\<open>"1"\<close>.
\<close>

theorem dedup_gate_state_machine_witness:
  "(\<forall>ns event body.
      clientset (worldX Map.empty 0 Map.empty notFound notFound None) ns event body = None)
   \<and> gateState Map.empty = Unseen
   \<and> map_option (\<lambda>(forwarded, anns', w'). (forwarded, anns' annotationKey))
       (gateStep (worldX Map.empty 0 Map.empty notFound notFound None) (eventX 0) Map.empty 1) =
     Some (True, Some ''1'')
   \<and> gateState [annotationKey \<mapsto> ''1''] = Seen 1
   \<and> map_option (\<lambda>(forwarded, anns', w'). (forwarded, anns' annotationKey))
       (gateStep (worldX Map.empty 0 Map.empty notFound notFound None) (eventX 0)
          [annotationKey \<mapsto> ''1''] 3) =
     Some (True, Some ''3'')
   \<and> map_option (\<lambda>(forwarded, anns', w'). (forwarded, anns' annotationKey))
       (gateStep (worldX Map.empty 0 Map.empty notFound notFound None) (eventX 0)
          [annotationKey \<mapsto> ''1''] 1) =
     Some (False, Some ''1'')
   \<and> run (worldX Map.empty 0 Map.empty notFound notFound None) (eventX 0) Map.empty
       [1, 1, 3, 2] =
     Some [(True, Some ''1''), (False, Some ''1''), (True, Some ''3''), (False, Some ''3'')]"
proof -
  let ?w = "worldX Map.empty 0 Map.empty notFound notFound None"
  have ok: "\<forall>ns event body. clientset ?w ns event body = None"
    by (simp add: worldX_def)
  have g0: "gateState Map.empty = Unseen"
    by (simp add: gateState_def)
  have g1: "gateState [annotationKey \<mapsto> ''1''] = Seen 1"
    by (simp add: gateState_def Atoi_def ParseInt_def ParseUint_def isDigit_def digitVal_def
        maxUint64_def)
  have lt: "(1::int) < sint (3 :: 32 word)" and le: "sint (1 :: 32 word) \<le> (1::int)"
    by simp_all
  note m0 = dedup_gate_state_machine [OF ok, of Map.empty "eventX 0" 1]
  note m3 = dedup_gate_state_machine [OF ok, of "[annotationKey \<mapsto> ''1'']" "eventX 0" 3]
  note m1 = dedup_gate_state_machine [OF ok, of "[annotationKey \<mapsto> ''1'']" "eventX 0" 1]
  obtain w0 where s0: "gateStep ?w (eventX 0) Map.empty 1 =
      Some (True, [annotationKey \<mapsto> ''1''], w0)"
    using m0 g0 by (auto simp: Sprintf_d_1)
  obtain w3 where s3: "gateStep ?w (eventX 0) [annotationKey \<mapsto> ''1''] 3 =
      Some (True, [annotationKey \<mapsto> ''3''], w3)"
    using m3 g1 lt by (auto simp: Sprintf_d_3)
  obtain w1 where s1: "gateStep ?w (eventX 0) [annotationKey \<mapsto> ''1''] 1 =
      Some (False, [annotationKey \<mapsto> ''1''], w1)"
    using m1 g1 le by auto
  have r: "run ?w (eventX 0) Map.empty [1, 1, 3, 2] =
     Some [(True, Some ''1''), (False, Some ''1''), (True, Some ''3''), (False, Some ''3'')]"
    using m0 by blast
  show ?thesis
    using ok g0 g1 r by (simp add: s0 s3 s1)
qed

section \<open>The watermark write-back\<close>



section \<open>Malformed watermarks\<close>

text \<open>
  C5, as the code has it. When the watermark annotation is present and \<^verbatim>\<open>Atoi\<close> rejects
  it (it is not an optional sign followed by decimal digits, or it is outside the 64-bit
  range), or \<^verbatim>\<open>Atoi\<close> reads it as a negative integer while the count is not negative,
  \<^verbatim>\<open>onEvent\<close> does what it does without a watermark: it returns without a panic, calls
  the label cache, the annotation cache and then the handler, each once.
\<close>

theorem malformed_watermark:
  assumes "load (heap w) a = Some (EventCell event)"
    and "mapIndex (heap w) (Event_Annotations event) annotationKey = Some s"
    and "isl (Atoi s) \<or> (\<exists>v. Atoi s = Inr v \<and> v < 0 \<and> 0 \<le> sint (Count event))"
  shows "\<exists>w'. onEvent w (Some a) = Inr w'
    \<and> filter (\<lambda>x. isFetch x \<or> isHandlerCall x) (newEffects w w') =
        [CallGetLabelsWithCache (InvolvedObject event) (labelsResult w event),
         CallGetAnnotationsWithCache (InvolvedObject event) (annotationsResult w event),
         CallHandler (enhancedAddr w event)]"
proof -
  have ns: "\<not> skipEvent (heap w) event"
    using assms(2,3) by (auto simp: skipEvent_def split: sum.splits)
  show ?thesis
    using onEvent_forward [OF assms(1) ns] forward_calls [OF assms(1) ns] by simp
qed

text \<open>The theorem at an event with count 1 whose watermark annotation is \<^verbatim>\<open>"abc"\<close>.\<close>

theorem malformed_watermark_witness:
  "load (heap (worldX [annotationKey \<mapsto> ''abc''] 1 Map.empty notFound notFound None)) 1 =
     Some (EventCell (eventX 1))
   \<and> Atoi ''abc'' = Inl ErrSyntax
   \<and> map_sum id (\<lambda>w'. filter (\<lambda>x. isFetch x \<or> isHandlerCall x) (trace w'))
       (onEvent (worldX [annotationKey \<mapsto> ''abc''] 1 Map.empty notFound notFound None)
          (Some 1)) =
     Inr [CallGetLabelsWithCache podX (Inl ''not found''),
          CallGetAnnotationsWithCache podX (Inl ''not found''),
          CallHandler 4]"
proof -
  let ?w = "worldX [annotationKey \<mapsto> ''abc''] 1 Map.empty notFound notFound None"
  have 1: "load (heap ?w) 1 = Some (EventCell (eventX 1))"
    by (simp add: worldX_def load_def)
  have 2: "mapIndex (heap ?w) (Event_Annotations (eventX 1)) annotationKey = Some ''abc''"
    by (simp add: worldX_def eventX_def mapIndex_def load_def)
  have 3: "Atoi ''abc'' = Inl ErrSyntax"
    by (simp add: Atoi_def ParseInt_def ParseUint_def isDigit_def)
  have 4: "isl (Atoi ''abc'') \<or> (\<exists>v. Atoi ''abc'' = Inr v \<and> v < 0 \<and> 0 \<le> sint (Count (eventX 1)))"
    using 3 by simp
  have 5: "InvolvedObject (eventX 1) = podX"
    by (simp add: eventX_def)
  have 6: "newEffects ?w w' = trace w'" for w'
    by (simp add: newEffects_def worldX_def)
  from malformed_watermark [OF 1 2 4] show ?thesis
    using 1 3 unfolding worldX_results 5 6 by auto
qed

text \<open>
  C5 as stated fails for an annotation that is not a non-negative integer but is an
  integer: \<^verbatim>\<open>Atoi\<close> reads \<^verbatim>\<open>"-1"\<close> as \<open>-1\<close>, and an event whose \<^verbatim>\<open>int32\<close> count is \<open>-1\<close> is
  skipped: the trace holds the two debug lines and no call of the handler.
\<close>

theorem malformed_watermark_counterexample:
  "mapIndex (heap (worldX [annotationKey \<mapsto> ''-1''] (- 1) Map.empty notFound notFound None))
     (Event_Annotations (eventX (- 1))) annotationKey = Some ''-1''
   \<and> Atoi ''-1'' = Inr (- 1)
   \<and> map_sum id trace
       (onEvent (worldX [annotationKey \<mapsto> ''-1''] (- 1) Map.empty notFound notFound None)
          (Some 1)) =
     Inr [received (eventX (- 1)), LogDebug [] ''Skip event'']"
  by (simp add: onEvent_def skipEvent_def mapIndex_def load_def worldX_def eventX_def
      emit_def Let_def Atoi_def ParseInt_def ParseUint_def isDigit_def digitVal_def
      maxUint64_def)

section \<open>Enrichment\<close>

text \<open>
  C6. Enrichment is independent and best effort. For every event that passes the gate,
  \<^verbatim>\<open>onEvent\<close> calls the label cache, then the annotation cache, then the handler, each
  once, whatever the two caches return. The enhanced event that the handler is given
  carries as labels what the label cache returned, or nothing if it returned an error,
  and as annotations what the annotation cache returned, or nothing if it returned an
  error: neither field depends on the other call. A call returns an error exactly when
  the fetch fails.
\<close>

theorem enrichment_independent:
  assumes "load (heap w) a = Some (EventCell event)"
    and "\<not> skipEvent (heap w) event"
  shows "\<exists>w' e. onEvent w (Some a) = Inr w'
    \<and> filter (\<lambda>x. isFetch x \<or> isHandlerCall x) (newEffects w w') =
        [CallGetLabelsWithCache (InvolvedObject event) (labelsResult w event),
         CallGetAnnotationsWithCache (InvolvedObject event) (annotationsResult w event),
         CallHandler (enhancedAddr w event)]
    \<and> load (heap w') (enhancedAddr w event) = Some (EnhancedEventCell e)
    \<and> Labels (Enhanced_InvolvedObject e) =
        (case labelsResult w event of Inl err \<Rightarrow> None | Inr m \<Rightarrow> m)
    \<and> Annotations (Enhanced_InvolvedObject e) =
        (case annotationsResult w event of Inl err \<Rightarrow> None | Inr m \<Rightarrow> m)
    \<and> isl (labelsResult w event) = fetchFails (labelCache w) (InvolvedObject event)
    \<and> isl (annotationsResult w event) = fetchFails (annotationCache w) (InvolvedObject event)"
  using onEvent_forward [OF assms] forward_calls [OF assms] onEvent_enhanced [of w event]
    labelsResult_isl [of w event] annotationsResult_isl [of w event]
  by (simp add: attached_def)

text \<open>
  The theorem where the label fetch fails and the annotation fetch succeeds: both caches
  and the handler are called, the labels are \<^verbatim>\<open>nil\<close> and the annotations are the map the
  annotation cache returned.
\<close>

theorem enrichment_independent_witness:
  "load (heap (worldX Map.empty 1 Map.empty notFound (found [''team'' \<mapsto> ''a'']) None)) 1 =
     Some (EventCell (eventX 1))
   \<and> \<not> skipEvent (heap (worldX Map.empty 1 Map.empty notFound (found [''team'' \<mapsto> ''a'']) None))
         (eventX 1)
   \<and> map_sum id
       (\<lambda>w'. (filter (\<lambda>x. isFetch x \<or> isHandlerCall x) (trace w'),
               case load (heap w') 4 of
                 Some (EnhancedEventCell e) \<Rightarrow>
                   Some (Labels (Enhanced_InvolvedObject e),
                         Annotations (Enhanced_InvolvedObject e))
               | _ \<Rightarrow> None))
       (onEvent (worldX Map.empty 1 Map.empty notFound (found [''team'' \<mapsto> ''a'']) None)
          (Some 1)) =
     Inr ([CallGetLabelsWithCache podX (Inl ''not found''),
           CallGetAnnotationsWithCache podX (Inr (Some 5)),
           CallHandler 4],
          Some (None, Some 5))"
proof -
  let ?w = "worldX Map.empty 1 Map.empty notFound (found [''team'' \<mapsto> ''a'']) None"
  have 1: "load (heap ?w) 1 = Some (EventCell (eventX 1))"
    by (simp add: worldX_def load_def)
  have 2: "\<not> skipEvent (heap ?w) (eventX 1)"
    by (simp add: worldX_def eventX_def skipEvent_def mapIndex_def load_def)
  have 3: "InvolvedObject (eventX 1) = podX"
    by (simp add: eventX_def)
  have 4: "newEffects ?w w' = trace w'" for w'
    by (simp add: newEffects_def worldX_def)
  from enrichment_independent [OF 1 2] show ?thesis
    using 1 2 unfolding worldX_results 3 4 by auto
qed

text \<open>
  C8. The involved-object reference. For every event that passes the gate, the enhanced
  event that the handler is given carries a copy of the involved-object reference of the
  raw event if at least one of the two fetches succeeded, and the zero reference (the
  field was never assigned) if both failed.
\<close>

theorem reference_attached:
  assumes "load (heap w) a = Some (EventCell event)"
    and "\<not> skipEvent (heap w) event"
  shows "\<exists>w' e. onEvent w (Some a) = Inr w'
    \<and> filter isHandlerCall (newEffects w w') = [CallHandler (enhancedAddr w event)]
    \<and> load (heap w') (enhancedAddr w event) = Some (EnhancedEventCell e)
    \<and> ObjectReference (Enhanced_InvolvedObject e) =
        (if fetchFails (labelCache w) (InvolvedObject event)
            \<and> fetchFails (annotationCache w) (InvolvedObject event)
         then zeroObjectReference else InvolvedObject event)"
  using onEvent_forward [OF assms] forward_calls [OF assms] onEvent_enhanced [of w event]
  by (simp add: labelsResult_isl annotationsResult_isl onEvent_forward_trace [OF assms]
      errorLog_no_call patchLog_no_call received_no_call)

text \<open>The theorem where both fetches fail: the reference is the zero value.\<close>

theorem reference_attached_witness:
  "load (heap (worldX Map.empty 1 Map.empty notFound notFound None)) 1 =
     Some (EventCell (eventX 1))
   \<and> \<not> skipEvent (heap (worldX Map.empty 1 Map.empty notFound notFound None)) (eventX 1)
   \<and> map_sum id
       (\<lambda>w'. case load (heap w') 4 of
                 Some (EnhancedEventCell e) \<Rightarrow>
                   Some (ObjectReference (Enhanced_InvolvedObject e))
               | _ \<Rightarrow> None)
       (onEvent (worldX Map.empty 1 Map.empty notFound notFound None) (Some 1)) =
     Inr (Some zeroObjectReference)"
proof -
  let ?w = "worldX Map.empty 1 Map.empty notFound notFound None"
  have 1: "load (heap ?w) 1 = Some (EventCell (eventX 1))"
    by (simp add: worldX_def load_def)
  have 2: "\<not> skipEvent (heap ?w) (eventX 1)"
    by (simp add: worldX_def eventX_def skipEvent_def mapIndex_def load_def)
  have 3: "fetchFails (labelCache ?w) (InvolvedObject (eventX 1))"
    "fetchFails (annotationCache ?w) (InvolvedObject (eventX 1))"
    by (simp_all add: fetchFails_def worldX_def notFound_def)
  from reference_attached [OF 1 2] show ?thesis
    using 1 2 3 by (auto simp: worldX_results)
qed

section \<open>The raw event and what the enhanced event shares\<close>




section \<open>Callback routing\<close>

text \<open>
  C9. For every pair of objects, \<^verbatim>\<open>OnUpdate(old, new)\<close> does exactly what \<^verbatim>\<open>OnAdd(new)\<close>
  does, whatever the old object is, and \<^verbatim>\<open>OnDelete\<close> returns with the watcher, the
  store and the trace unchanged: no handler call, no fetch, no patch.
\<close>

theorem callback_routing:
  "OnUpdate w oldObj newObj = OnAdd w newObj \<and> OnDelete w x = Inr w"
  by (simp add: OnUpdate_def OnAdd_def OnDelete_def)

end
